theory Spec2Isabelle
  imports Main "HOL-Library.Multiset"
begin

section \<open>Strings and the category slug (src/lib/handbook.ts, slugifyCategory)\<close>

text \<open>
  Strings are lists of 8-bit characters. \<open>toLowerCase\<close> is modelled on the ASCII
  letters; every other character is left as it is and is then outside \<open>[a-z0-9]\<close>.
\<close>

definition isUpperAscii :: "char \<Rightarrow> bool" where
  "isUpperAscii c = (65 \<le> (of_char c :: nat) \<and> (of_char c :: nat) \<le> 90)"

definition lowerChar :: "char \<Rightarrow> char" where
  "lowerChar c = (if isUpperAscii c then char_of ((of_char c :: nat) + 32) else c)"

definition toLowerCase :: "string \<Rightarrow> string" where
  "toLowerCase s = map lowerChar s"

text \<open>The character class \<open>[a-z0-9]\<close>.\<close>

definition isAlnumLower :: "char \<Rightarrow> bool" where
  "isAlnumLower c =
     ((97 \<le> (of_char c :: nat) \<and> (of_char c :: nat) \<le> 122) \<or>
      (48 \<le> (of_char c :: nat) \<and> (of_char c :: nat) \<le> 57))"

text \<open>\<open>.replace(/[^a-z0-9]+/g, '-')\<close>: every maximal run of characters outside the class
  becomes one hyphen.\<close>

function replaceRuns :: "string \<Rightarrow> string" where
  "replaceRuns [] = []"
| "replaceRuns (c # cs) =
     (if isAlnumLower c then c # replaceRuns cs
      else CHR ''-'' # replaceRuns (dropWhile (\<lambda>d. \<not> isAlnumLower d) cs))"
  by pat_completeness auto
termination
  by (relation "measure length") (auto simp: less_Suc_eq_le length_dropWhile_le)

text \<open>\<open>.replace(/(^-|-$)/g, '')\<close>: one hyphen at the start is removed, and one hyphen at
  the end of what is left.\<close>

definition trimHyphens :: "string \<Rightarrow> string" where
  "trimHyphens s =
     (let s1 = (case s of [] \<Rightarrow> [] | c # cs \<Rightarrow> if c = CHR ''-'' then cs else s)
      in if s1 \<noteq> [] \<and> last s1 = CHR ''-'' then butlast s1 else s1)"

definition slugifyCategory :: "string \<Rightarrow> string" where
  "slugifyCategory category = trimHyphens (replaceRuns (toLowerCase category))"

section \<open>Data model (src/lib/handbook.ts)\<close>

text \<open>
  The front matter of a file as gray-matter returns it: every field may be missing. The
  fields have the types that the interfaces of the source declare: \<open>title\<close>,
  \<open>description\<close> and \<open>category\<close> are strings, \<open>keywords\<close> is a list of strings, and
  \<open>order\<close> and \<open>categoryOrder\<close> are numbers, here integers.
\<close>

record frontmatter =
  fm_title :: "string option"
  fm_description :: "string option"
  fm_keywords :: "string list option"
  fm_order :: "int option"
  fm_category :: "string option"
  fm_categoryOrder :: "int option"

record HandbookPage =
  page_slug :: string
  page_title :: string
  page_description :: string
  page_keywords :: "string list"
  page_order :: int
  page_category :: "string option"
  page_categoryOrder :: "int option"
  page_content :: string
  page_contentHtml :: string

record HandbookNavItem =
  nav_slug :: string
  nav_title :: string
  nav_order :: int
  nav_category :: "string option"
  nav_categoryOrder :: int

record HandbookCategory =
  cat_name :: string
  cat_slug :: string
  cat_order :: int
  cat_items :: "HandbookNavItem list"

record HandbookNavigation =
  introduction :: "HandbookNavItem option"
  categories :: "HandbookCategory list"

section \<open>The content directory\<close>

text \<open>
  An entry of the content directory is what reading and parsing it gives:
  \<open>readFileSync\<close> throws (\<open>Unreadable\<close>, for instance a subdirectory), gray-matter throws
  on its front matter (\<open>Malformed\<close>), or gray-matter returns the front matter and the
  body. The directory is the list of its entries in the order \<open>readdirSync\<close> returns them;
  the names of a directory's entries are distinct. \<open>path.join(handbookDirectory, fileName)\<close>
  is looked up among these names.
\<close>

datatype entry = Unreadable | Malformed | Parsed frontmatter string

datatype error = IOError | ParseError

type_synonym directory = "(string \<times> entry) list"

definition readdirSync :: "directory \<Rightarrow> string list" where
  "readdirSync dir = map fst dir"

definition existsSync :: "directory \<Rightarrow> string \<Rightarrow> bool" where
  "existsSync dir fileName = (map_of dir fileName \<noteq> None)"

text \<open>\<open>matter(fs.readFileSync(fullPath, 'utf8'))\<close>.\<close>

definition readMatter :: "directory \<Rightarrow> string \<Rightarrow> error + (frontmatter \<times> string)" where
  "readMatter dir fileName =
     (case map_of dir fileName of
        None \<Rightarrow> Inl IOError
      | Some Unreadable \<Rightarrow> Inl IOError
      | Some Malformed \<Rightarrow> Inl ParseError
      | Some (Parsed d body) \<Rightarrow> Inr (d, body))"

section \<open>JavaScript operators on the front matter's values\<close>

text \<open>\<open>a || b\<close> on an optional string: the empty string and a missing value are falsy.\<close>

definition strOr :: "string option \<Rightarrow> string \<Rightarrow> string" where
  "strOr a b = (case a of None \<Rightarrow> b | Some s \<Rightarrow> if s = [] then b else s)"

text \<open>\<open>a || null\<close> and \<open>a || undefined\<close> on an optional string.\<close>

definition strOrNull :: "string option \<Rightarrow> string option" where
  "strOrNull a = (case a of None \<Rightarrow> None | Some s \<Rightarrow> if s = [] then None else Some s)"

text \<open>\<open>a ?? d\<close> on an optional number.\<close>

definition nullish :: "int option \<Rightarrow> int \<Rightarrow> int" where
  "nullish a d = (case a of None \<Rightarrow> d | Some v \<Rightarrow> v)"

text \<open>\<open>a || d\<close> on a number: zero is falsy.\<close>

definition numOr :: "int \<Rightarrow> int \<Rightarrow> int" where
  "numOr a d = (if a = 0 then d else a)"

text \<open>The truth value of an optional string in a condition.\<close>

definition truthy :: "string option \<Rightarrow> bool" where
  "truthy a = (case a of None \<Rightarrow> False | Some s \<Rightarrow> s \<noteq> [])"

section \<open>File names and slugs\<close>

definition endsWithMd :: "string \<Rightarrow> bool" where
  "endsWithMd fileName =
     (3 \<le> length fileName \<and> drop (length fileName - 3) fileName = ''.md'')"

text \<open>\<open>fileName.replace(/\.md$/, '')\<close>.\<close>

definition stripMd :: "string \<Rightarrow> string" where
  "stripMd fileName =
     (if endsWithMd fileName then take (length fileName - 3) fileName else fileName)"

definition slugOfFile :: "string \<Rightarrow> string" where
  "slugOfFile fileName = (if stripMd fileName = ''index'' then [] else stripMd fileName)"

text \<open>Running a function that may throw over a list: the first exception ends the loop.\<close>

fun mapResult :: "('a \<Rightarrow> error + 'b) \<Rightarrow> 'a list \<Rightarrow> error + 'b list" where
  "mapResult f [] = Inr []"
| "mapResult f (x # xs) =
     (case f x of
        Inl e \<Rightarrow> Inl e
      | Inr y \<Rightarrow> (case mapResult f xs of Inl e \<Rightarrow> Inl e | Inr ys \<Rightarrow> Inr (y # ys)))"

section \<open>getHandbookNavigation\<close>

text \<open>The callback of \<open>fileNames.map\<close> (lines 70 to 83): the title falls back to the file
  name without \<open>.md\<close>, the slug of \<open>index.md\<close> is empty.\<close>

definition navItemOfFile :: "directory \<Rightarrow> string \<Rightarrow> error + HandbookNavItem" where
  "navItemOfFile dir fileName =
     (case readMatter dir fileName of
        Inl e \<Rightarrow> Inl e
      | Inr (d, body) \<Rightarrow>
          Inr \<lparr> nav_slug = slugOfFile fileName,
                nav_title = strOr (fm_title d) (stripMd fileName),
                nav_order = nullish (fm_order d) 999,
                nav_category = strOrNull (fm_category d),
                nav_categoryOrder = nullish (fm_categoryOrder d) 999 \<rparr>)"

text \<open>\<open>allPages\<close> (lines 68 to 83): one item per markdown file, in the order of
  \<open>readdirSync\<close>.\<close>

definition allPages :: "directory \<Rightarrow> error + HandbookNavItem list" where
  "allPages dir = mapResult (navItemOfFile dir) (filter endsWithMd (readdirSync dir))"

text \<open>A JavaScript \<open>Map\<close> with string keys, as the list of its entries in insertion order.\<close>

type_synonym 'v jsmap = "(string \<times> 'v) list"

definition mapHas :: "'v jsmap \<Rightarrow> string \<Rightarrow> bool" where
  "mapHas m k = (map_of m k \<noteq> None)"

fun mapSet :: "string \<Rightarrow> 'v \<Rightarrow> 'v jsmap \<Rightarrow> 'v jsmap" where
  "mapSet k v [] = [(k, v)]"
| "mapSet k v ((k', v') # m) = (if k' = k then (k, v) # m else (k', v') # mapSet k v m)"

text \<open>\<open>map.get(k)!.push(x)\<close>: the array stored under \<open>k\<close> grows by \<open>x\<close>.\<close>

fun mapPush :: "string \<Rightarrow> 'a \<Rightarrow> ('a list) jsmap \<Rightarrow> ('a list) jsmap" where
  "mapPush k x [] = []"
| "mapPush k x ((k', xs) # m) =
     (if k' = k then (k, xs @ [x]) # m else (k', xs) # mapPush k x m)"

text \<open>\<open>categorizedPages\<close> (line 87).\<close>

definition categorizedPages :: "HandbookNavItem list \<Rightarrow> HandbookNavItem list" where
  "categorizedPages pages = filter (\<lambda>p. nav_slug p \<noteq> [] \<and> truthy (nav_category p)) pages"

text \<open>The body of \<open>categorizedPages.forEach\<close> (lines 93 to 101), on the pair of
  \<open>categoryMap\<close> and \<open>categoryOrderMap\<close>.\<close>

definition groupStep ::
  "HandbookNavItem \<Rightarrow> HandbookNavItem list jsmap \<times> int jsmap
     \<Rightarrow> HandbookNavItem list jsmap \<times> int jsmap" where
  "groupStep page st =
     (case nav_category page of
        None \<Rightarrow> st
      | Some c \<Rightarrow>
          if c = [] then st
          else if mapHas (fst st) c then (mapPush c page (fst st), snd st)
          else (mapPush c page (mapSet c [] (fst st)),
                mapSet c (numOr (nav_categoryOrder page) 999) (snd st)))"

definition groupPages ::
  "HandbookNavItem list \<Rightarrow> HandbookNavItem list jsmap \<times> int jsmap" where
  "groupPages pages = fold groupStep pages ([], [])"

text \<open>
  \<open>Array.prototype.sort\<close> is stable (ECMAScript 2019), so with the comparator
  \<open>a.order - b.order\<close> on integers it is a stable sort by \<open>order\<close>: \<open>sort_key\<close>.
  \<open>categoryOf\<close> is the function mapped over the entries of \<open>categoryMap\<close>
  (lines 110 to 115); \<open>buildNavigation\<close> is lines 85 to 118, after the files are read.
\<close>

definition categoryOf :: "int jsmap \<Rightarrow> string \<times> HandbookNavItem list \<Rightarrow> HandbookCategory" where
  "categoryOf om e =
     \<lparr> cat_name = fst e,
       cat_slug = slugifyCategory (fst e),
       cat_order = (case map_of om (fst e) of None \<Rightarrow> 999 | Some v \<Rightarrow> numOr v 999),
       cat_items = snd e \<rparr>"

definition buildNavigation :: "HandbookNavItem list \<Rightarrow> HandbookNavigation" where
  "buildNavigation pages =
     (let st = groupPages (categorizedPages pages);
          sortedMap = map (\<lambda>e. (fst e, sort_key nav_order (snd e))) (fst st)
      in \<lparr> introduction = find (\<lambda>p. nav_slug p = []) pages,
            categories = sort_key cat_order (map (categoryOf (snd st)) sortedMap) \<rparr>)"

definition getHandbookNavigation :: "directory \<Rightarrow> error + HandbookNavigation" where
  "getHandbookNavigation dir =
     (case allPages dir of Inl e \<Rightarrow> Inl e | Inr pages \<Rightarrow> Inr (buildNavigation pages))"

section \<open>getAllHandbookPages, getHandbookPage, getAllHandbookSlugs\<close>

text \<open>\<open>flatten\<close> is the body of \<open>getAllHandbookPages\<close> after the navigation is built
  (lines 124 to 134): the introduction, if there is one, and then the items of every
  category.\<close>

definition flatten :: "HandbookNavigation \<Rightarrow> HandbookNavItem list" where
  "flatten nav =
     (case introduction nav of None \<Rightarrow> [] | Some i \<Rightarrow> [i]) @ concat (map cat_items (categories nav))"

definition getAllHandbookPages :: "directory \<Rightarrow> error + HandbookNavItem list" where
  "getAllHandbookPages dir =
     (case getHandbookNavigation dir of Inl e \<Rightarrow> Inl e | Inr nav \<Rightarrow> Inr (flatten nav))"

definition pageFileName :: "string \<Rightarrow> string" where
  "pageFileName slug = (if slug = [] then ''index.md'' else slug @ ''.md'')"

text \<open>The markdown renderer (remark with remark-html) is the parameter \<open>render\<close>.\<close>

definition getHandbookPage ::
  "(string \<Rightarrow> string) \<Rightarrow> directory \<Rightarrow> string \<Rightarrow> error + HandbookPage option" where
  "getHandbookPage render dir slug =
     (if \<not> existsSync dir (pageFileName slug) then Inr None
      else case readMatter dir (pageFileName slug) of
        Inl e \<Rightarrow> Inl e
      | Inr (d, body) \<Rightarrow>
          Inr (Some \<lparr> page_slug = slug,
                      page_title = strOr (fm_title d) slug,
                      page_description = strOr (fm_description d) [],
                      page_keywords = (case fm_keywords d of None \<Rightarrow> [] | Some ks \<Rightarrow> ks),
                      page_order = nullish (fm_order d) 999,
                      page_category = strOrNull (fm_category d),
                      page_categoryOrder = fm_categoryOrder d,
                      page_content = body,
                      page_contentHtml = render body \<rparr>))"

definition getAllHandbookSlugs :: "directory \<Rightarrow> string list" where
  "getAllHandbookSlugs dir = map slugOfFile (filter endsWithMd (readdirSync dir))"

section \<open>Previous and next page (src/components/handbook/article-content.tsx)\<close>

text \<open>\<open>Array.prototype.findIndex\<close>: the first index whose element satisfies the predicate,
  \<open>-1\<close> when there is none.\<close>

fun findIndex :: "('a \<Rightarrow> bool) \<Rightarrow> 'a list \<Rightarrow> int" where
  "findIndex P [] = - 1"
| "findIndex P (x # xs) =
     (if P x then 0 else (if findIndex P xs < 0 then - 1 else findIndex P xs + 1))"

text \<open>\<open>xs[i]\<close>: \<open>undefined\<close> outside the array.\<close>

definition at :: "'a list \<Rightarrow> int \<Rightarrow> 'a option" where
  "at xs i = (if 0 \<le> i \<and> i < int (length xs) then Some (xs ! nat i) else None)"

text \<open>\<open>currentIndex\<close>, \<open>prevPage\<close> and \<open>nextPage\<close> of \<open>ArticleContent\<close>; \<open>null\<close> and
  \<open>undefined\<close> are both \<open>None\<close>.\<close>

definition currentIndex :: "HandbookPage \<Rightarrow> HandbookNavItem list \<Rightarrow> int" where
  "currentIndex page pages = findIndex (\<lambda>p. nav_slug p = page_slug page) pages"

definition prevPage :: "HandbookPage \<Rightarrow> HandbookNavItem list \<Rightarrow> HandbookNavItem option" where
  "prevPage page pages =
     (if currentIndex page pages > 0 then at pages (currentIndex page pages - 1) else None)"

definition nextPage :: "HandbookPage \<Rightarrow> HandbookNavItem list \<Rightarrow> HandbookNavItem option" where
  "nextPage page pages =
     (if currentIndex page pages < int (length pages) - 1
      then at pages (currentIndex page pages + 1) else None)"

section \<open>Breadcrumbs (src/app/front-end-engineer-handbook/[slug]/page.tsx)\<close>

record ListItem =
  li_type :: string
  li_position :: int
  li_name :: string
  li_item :: string

text \<open>The \<open>itemListElement\<close> of the object that \<open>generateBreadcrumbJsonLd\<close> returns.\<close>

definition generateBreadcrumbJsonLd :: "HandbookPage \<Rightarrow> string \<Rightarrow> ListItem list" where
  "generateBreadcrumbJsonLd page slug =
     [ \<lparr> li_type = ''ListItem'', li_position = 1, li_name = ''Home'',
         li_item = ''https://dima-tolmachev.com'' \<rparr>,
       \<lparr> li_type = ''ListItem'', li_position = 2, li_name = ''Front-end Engineer Handbook'',
         li_item = ''https://dima-tolmachev.com/front-end-engineer-handbook'' \<rparr> ]
     @ (case page_category page of
          None \<Rightarrow>
            [ \<lparr> li_type = ''ListItem'', li_position = 3, li_name = page_title page,
                li_item = ''https://dima-tolmachev.com/front-end-engineer-handbook/'' @ slug \<rparr> ]
        | Some c \<Rightarrow>
            if c = [] then
              [ \<lparr> li_type = ''ListItem'', li_position = 3, li_name = page_title page,
                  li_item = ''https://dima-tolmachev.com/front-end-engineer-handbook/'' @ slug \<rparr> ]
            else
              [ \<lparr> li_type = ''ListItem'', li_position = 3, li_name = c,
                  li_item = ''https://dima-tolmachev.com/front-end-engineer-handbook#''
                            @ replaceRuns (toLowerCase c) \<rparr>,
                \<lparr> li_type = ''ListItem'', li_position = 4, li_name = page_title page,
                  li_item = ''https://dima-tolmachev.com/front-end-engineer-handbook/'' @ slug \<rparr> ])"

section \<open>Example content directories\<close>

text \<open>Front matter with a title and an order, without and with a category.\<close>

definition fmPlain :: "string \<Rightarrow> int \<Rightarrow> frontmatter" where
  "fmPlain t n =
     \<lparr> fm_title = Some t, fm_description = None, fm_keywords = None, fm_order = Some n,
       fm_category = None, fm_categoryOrder = None \<rparr>"

definition fmIn :: "string \<Rightarrow> int \<Rightarrow> string \<Rightarrow> int \<Rightarrow> frontmatter" where
  "fmIn t n c k =
     \<lparr> fm_title = Some t, fm_description = None, fm_keywords = None, fm_order = Some n,
       fm_category = Some c, fm_categoryOrder = Some k \<rparr>"

text \<open>A renderer that returns the markdown body as it is.\<close>

definition verbatim :: "string \<Rightarrow> string" where
  "verbatim body = body"

text \<open>A navigation item with a category.\<close>

definition navItem :: "string \<Rightarrow> string \<Rightarrow> int \<Rightarrow> string \<Rightarrow> int \<Rightarrow> HandbookNavItem" where
  "navItem s t n c k =
     \<lparr> nav_slug = s, nav_title = t, nav_order = n, nav_category = Some c,
       nav_categoryOrder = k \<rparr>"

text \<open>A directory like the repository's: an introduction, two categories, a page without
  a category and an entry that is no markdown file.\<close>

definition exampleDir :: directory where
  "exampleDir =
     [ (''about.md'', Parsed (fmPlain ''About'' 1) ''a''),
       (''control-flow.md'', Parsed (fmIn ''Control Flow'' 6 ''Fundamentals'' 1) ''c''),
       (''index.md'', Parsed (fmPlain ''Introduction'' 0) ''i''),
       (''notes.txt'', Unreadable),
       (''react.md'', Parsed (fmIn ''React'' 1 ''Frameworks & Libraries'' 2) ''r''),
       (''variables.md'', Parsed (fmIn ''Variables'' 1 ''Fundamentals'' 1) ''v'') ]"

definition introItem :: HandbookNavItem where
  "introItem =
     \<lparr> nav_slug = [], nav_title = ''Introduction'', nav_order = 0, nav_category = None,
       nav_categoryOrder = 999 \<rparr>"

definition variablesItem :: HandbookNavItem where
  "variablesItem =
     \<lparr> nav_slug = ''variables'', nav_title = ''Variables'', nav_order = 1,
       nav_category = Some ''Fundamentals'', nav_categoryOrder = 1 \<rparr>"

definition controlFlowItem :: HandbookNavItem where
  "controlFlowItem =
     \<lparr> nav_slug = ''control-flow'', nav_title = ''Control Flow'', nav_order = 6,
       nav_category = Some ''Fundamentals'', nav_categoryOrder = 1 \<rparr>"

definition reactItem :: HandbookNavItem where
  "reactItem =
     \<lparr> nav_slug = ''react'', nav_title = ''React'', nav_order = 1,
       nav_category = Some ''Frameworks & Libraries'', nav_categoryOrder = 2 \<rparr>"

definition examplePages :: "HandbookNavItem list" where
  "examplePages = [introItem, variablesItem, controlFlowItem, reactItem]"

definition exampleNav :: HandbookNavigation where
  "exampleNav =
     \<lparr> introduction = Some introItem,
       categories =
         [ \<lparr> cat_name = ''Fundamentals'', cat_slug = ''fundamentals'', cat_order = 1,
             cat_items = [variablesItem, controlFlowItem] \<rparr>,
           \<lparr> cat_name = ''Frameworks & Libraries'', cat_slug = ''frameworks-libraries'',
             cat_order = 2, cat_items = [reactItem] \<rparr> ] \<rparr>"

definition introPage :: HandbookPage where
  "introPage =
     \<lparr> page_slug = [], page_title = ''Introduction'', page_description = [],
       page_keywords = [], page_order = 0, page_category = None, page_categoryOrder = None,
       page_content = ''i'', page_contentHtml = ''i'' \<rparr>"

definition aboutPage :: "(string \<Rightarrow> string) \<Rightarrow> HandbookPage" where
  "aboutPage render =
     \<lparr> page_slug = ''about'', page_title = ''About'', page_description = [],
       page_keywords = [], page_order = 1, page_category = None, page_categoryOrder = None,
       page_content = ''a'', page_contentHtml = render ''a'' \<rparr>"

definition variablesPage :: HandbookPage where
  "variablesPage =
     \<lparr> page_slug = ''variables'', page_title = ''Variables'', page_description = [],
       page_keywords = [], page_order = 1, page_category = Some ''Fundamentals'',
       page_categoryOrder = Some 1, page_content = ''v'', page_contentHtml = ''v'' \<rparr>"

definition reactPage :: HandbookPage where
  "reactPage =
     \<lparr> page_slug = ''react'', page_title = ''React'', page_description = [],
       page_keywords = [], page_order = 1, page_category = Some ''Frameworks & Libraries'',
       page_categoryOrder = Some 2, page_content = ''r'', page_contentHtml = ''r'' \<rparr>"

text \<open>The introduction and one page without a category.\<close>

definition introOnlyDir :: directory where
  "introOnlyDir =
     [ (''about.md'', Parsed (fmPlain ''About'' 1) ''a''),
       (''index.md'', Parsed (fmPlain ''Introduction'' 0) ''i'') ]"

text \<open>Equal orders inside a category, and a category that is listed last and sorts first.\<close>

definition tieDir :: directory where
  "tieDir =
     [ (''a.md'', Parsed (fmIn ''A'' 1 ''X'' 2) ''a''),
       (''b.md'', Parsed (fmIn ''B'' 0 ''X'' 2) ''b''),
       (''c.md'', Parsed (fmIn ''C'' 1 ''X'' 2) ''c''),
       (''d.md'', Parsed (fmIn ''D'' 3 ''W'' 1) ''d'') ]"

definition tiePages :: "HandbookNavItem list" where
  "tiePages =
     [ navItem ''a'' ''A'' 1 ''X'' 2, navItem ''b'' ''B'' 0 ''X'' 2,
       navItem ''c'' ''C'' 1 ''X'' 2, navItem ''d'' ''D'' 3 ''W'' 1 ]"

definition tieCategoryX :: HandbookCategory where
  "tieCategoryX =
     \<lparr> cat_name = ''X'', cat_slug = ''x'', cat_order = 2,
       cat_items = [ navItem ''b'' ''B'' 0 ''X'' 2, navItem ''a'' ''A'' 1 ''X'' 2,
                     navItem ''c'' ''C'' 1 ''X'' 2 ] \<rparr>"

definition tieNav :: HandbookNavigation where
  "tieNav =
     \<lparr> introduction = None,
       categories =
         [ \<lparr> cat_name = ''W'', cat_slug = ''w'', cat_order = 1,
             cat_items = [ navItem ''d'' ''D'' 3 ''W'' 1 ] \<rparr>,
           tieCategoryX ] \<rparr>"

text \<open>Two files of one category with different \<open>categoryOrder\<close> values.\<close>

definition firstWinsDir :: directory where
  "firstWinsDir =
     [ (''a.md'', Parsed (fmIn ''A'' 2 ''X'' 5) ''a''),
       (''b.md'', Parsed (fmIn ''B'' 1 ''X'' 1) ''b''),
       (''c.md'', Parsed (fmIn ''C'' 1 ''Y'' 3) ''c'') ]"

definition firstWinsPages :: "HandbookNavItem list" where
  "firstWinsPages =
     [ navItem ''a'' ''A'' 2 ''X'' 5, navItem ''b'' ''B'' 1 ''X'' 1, navItem ''c'' ''C'' 1 ''Y'' 3 ]"

definition firstWinsCategoryX :: HandbookCategory where
  "firstWinsCategoryX =
     \<lparr> cat_name = ''X'', cat_slug = ''x'', cat_order = 5,
       cat_items = [ navItem ''b'' ''B'' 1 ''X'' 1, navItem ''a'' ''A'' 2 ''X'' 5 ] \<rparr>"

definition firstWinsNav :: HandbookNavigation where
  "firstWinsNav =
     \<lparr> introduction = None,
       categories =
         [ \<lparr> cat_name = ''Y'', cat_slug = ''y'', cat_order = 3,
             cat_items = [ navItem ''c'' ''C'' 1 ''Y'' 3 ] \<rparr>,
           firstWinsCategoryX ] \<rparr>"

text \<open>The introduction file declares a category.\<close>

definition indexCatDir :: directory where
  "indexCatDir =
     [ (''index.md'', Parsed (fmIn ''Intro'' 0 ''X'' 5) ''i''),
       (''js.md'', Parsed (fmIn ''JS'' 1 ''X'' 1) ''j'') ]"

definition indexCatNav :: HandbookNavigation where
  "indexCatNav =
     \<lparr> introduction = Some (navItem [] ''Intro'' 0 ''X'' 5),
       categories =
         [ \<lparr> cat_name = ''X'', cat_slug = ''x'', cat_order = 1,
             cat_items = [ navItem ''js'' ''JS'' 1 ''X'' 1 ] \<rparr> ] \<rparr>"

text \<open>The first file of a category declares \<open>categoryOrder: 0\<close>.\<close>

definition zeroFirstDir :: directory where
  "zeroFirstDir =
     [ (''a.md'', Parsed (fmIn ''A'' 1 ''Z'' 0) ''a''),
       (''b.md'', Parsed (fmIn ''B'' 2 ''Z'' 3) ''b'') ]"

definition zeroFirstNav :: HandbookNavigation where
  "zeroFirstNav =
     \<lparr> introduction = None,
       categories =
         [ \<lparr> cat_name = ''Z'', cat_slug = ''z'', cat_order = 999,
             cat_items = [ navItem ''a'' ''A'' 1 ''Z'' 0, navItem ''b'' ''B'' 2 ''Z'' 3 ] \<rparr> ] \<rparr>"

definition zeroDir :: directory where
  "zeroDir =
     [ (''a.md'', Parsed (fmIn ''A'' 5 ''Z'' 0) ''a''),
       (''b.md'', Parsed (fmIn ''B'' 0 ''Z'' 0) ''b''),
       (''c.md'', Parsed (fmIn ''C'' 1 ''Y'' 1) ''c'') ]"

definition zeroPages :: "HandbookNavItem list" where
  "zeroPages =
     [ navItem ''a'' ''A'' 5 ''Z'' 0, navItem ''b'' ''B'' 0 ''Z'' 0, navItem ''c'' ''C'' 1 ''Y'' 1 ]"

definition zeroCategoryZ :: HandbookCategory where
  "zeroCategoryZ =
     \<lparr> cat_name = ''Z'', cat_slug = ''z'', cat_order = 999,
       cat_items = [ navItem ''b'' ''B'' 0 ''Z'' 0, navItem ''a'' ''A'' 5 ''Z'' 0 ] \<rparr>"

definition zeroNav :: HandbookNavigation where
  "zeroNav =
     \<lparr> introduction = None,
       categories =
         [ \<lparr> cat_name = ''Y'', cat_slug = ''y'', cat_order = 1,
             cat_items = [ navItem ''c'' ''C'' 1 ''Y'' 1 ] \<rparr>,
           zeroCategoryZ ] \<rparr>"



section \<open>Auxiliary notions used in the proofs\<close>

text \<open>The shape of a string after \<open>replaceRuns\<close>: only characters of \<open>[a-z0-9]\<close> and
  hyphens, and no two hyphens in a row.\<close>

fun collapsed :: "string \<Rightarrow> bool" where
  "collapsed [] = True"
| "collapsed [c] = (isAlnumLower c \<or> c = CHR ''-'')"
| "collapsed (c # d # cs) =
     ((isAlnumLower c \<or> (c = CHR ''-'' \<and> isAlnumLower d)) \<and> collapsed (d # cs))"

text \<open>A page that \<open>groupStep\<close> files under the category \<open>c\<close>.\<close>

definition inCat :: "string \<Rightarrow> HandbookNavItem \<Rightarrow> bool" where
  "inCat c p = (c \<noteq> [] \<and> nav_category p = Some c)"

section \<open>The category slug is idempotent\<close>

lemma hyphen_not_alnum: "\<not> isAlnumLower (CHR ''-'')"
  by (simp add: isAlnumLower_def)

lemma lowerChar_fix: "isAlnumLower c \<or> c = CHR ''-'' \<Longrightarrow> lowerChar c = c"
  by (auto simp: lowerChar_def isUpperAscii_def isAlnumLower_def)

lemma replaceRuns_hd: "replaceRuns xs = y # ys \<Longrightarrow> xs \<noteq> [] \<and> (isAlnumLower y \<longleftrightarrow> isAlnumLower (hd xs))"
  by (cases xs) (auto simp: hyphen_not_alnum split: if_splits)

lemma collapsed_replaceRuns: "collapsed (replaceRuns s)"
proof (induction s rule: replaceRuns.induct)
  case 1
  then show ?case by simp
next
  case (2 c cs)
  show ?case
  proof (cases "isAlnumLower c")
    case True
    with 2 show ?thesis by (cases "replaceRuns cs") auto
  next
    case False
    let ?r = "dropWhile (\<lambda>d. \<not> isAlnumLower d) cs"
    from 2 False have c: "collapsed (replaceRuns ?r)" by simp
    show ?thesis
    proof (cases "replaceRuns ?r")
      case Nil
      with False show ?thesis by simp
    next
      case (Cons y ys)
      from replaceRuns_hd[OF Cons] have "?r \<noteq> []" "isAlnumLower y \<longleftrightarrow> isAlnumLower (hd ?r)" by auto
      moreover have "isAlnumLower (hd ?r)" using \<open>?r \<noteq> []\<close> hd_dropWhile[of "\<lambda>d. \<not> isAlnumLower d" cs] by auto
      ultimately show ?thesis using c Cons False by simp
    qed
  qed
qed

lemma replaceRuns_id: "collapsed s \<Longrightarrow> replaceRuns s = s"
  by (induction s rule: collapsed.induct) (auto simp: hyphen_not_alnum)

lemma toLowerCase_id: "collapsed s \<Longrightarrow> toLowerCase s = s"
  by (induction s rule: collapsed.induct) (auto simp: toLowerCase_def lowerChar_fix)

lemma collapsed_tl: "collapsed (c # cs) \<Longrightarrow> collapsed cs"
  by (cases cs) auto

lemma collapsed_butlast: "collapsed s \<Longrightarrow> collapsed (butlast s)"
  by (induction s rule: collapsed.induct) (auto split: if_splits)

lemma collapsed_last: "collapsed s \<Longrightarrow> s \<noteq> [] \<Longrightarrow> last s = CHR ''-'' \<Longrightarrow> butlast s = [] \<or> last (butlast s) \<noteq> CHR ''-''"
  by (induction s rule: collapsed.induct) (auto simp: hyphen_not_alnum split: if_splits)

lemma collapsed_hyphen_tl: "collapsed (CHR ''-'' # cs) \<Longrightarrow> cs = [] \<or> isAlnumLower (hd cs)"
  by (cases cs) (auto simp: hyphen_not_alnum)

lemma trim_fix: "collapsed t \<Longrightarrow> t = [] \<or> (hd t \<noteq> CHR ''-'' \<and> last t \<noteq> CHR ''-'') \<Longrightarrow> trimHyphens t = t"
  by (cases t) (auto simp: trimHyphens_def)

lemma trim_shape: "collapsed s \<Longrightarrow> trimHyphens s = [] \<or> (hd (trimHyphens s) \<noteq> CHR ''-'' \<and> last (trimHyphens s) \<noteq> CHR ''-'')"
proof -
  assume c: "collapsed s"
  define s1 where "s1 = (case s of [] \<Rightarrow> [] | c # cs \<Rightarrow> if c = CHR ''-'' then cs else s)"
  have c1: "collapsed s1" using c by (cases s) (auto simp: s1_def dest: collapsed_tl)
  have h1: "s1 = [] \<or> hd s1 \<noteq> CHR ''-''"
  proof (cases s)
    case Nil
    then show ?thesis by (simp add: s1_def)
  next
    case (Cons a list)
    show ?thesis
    proof (cases "a = CHR ''-''")
      case True
      with Cons c collapsed_hyphen_tl[of list] have "list = [] \<or> isAlnumLower (hd list)" by simp
      moreover have "s1 = list" using Cons True by (simp add: s1_def)
      ultimately show ?thesis using hyphen_not_alnum by auto
    next
      case False
      with Cons show ?thesis by (simp add: s1_def)
    qed
  qed
  have t: "trimHyphens s = (if s1 \<noteq> [] \<and> last s1 = CHR ''-'' then butlast s1 else s1)"
    by (simp add: trimHyphens_def s1_def)
  show ?thesis
  proof (cases "s1 \<noteq> [] \<and> last s1 = CHR ''-''")
    case True
    then have l: "butlast s1 = [] \<or> last (butlast s1) \<noteq> CHR ''-''" using collapsed_last[OF c1] by simp
    have "butlast s1 = [] \<or> hd (butlast s1) = hd s1" by (cases s1) auto
    with h1 l True show ?thesis unfolding t by auto
  next
    case False
    with h1 show ?thesis unfolding t by auto
  qed
qed

lemma collapsed_trim: "collapsed s \<Longrightarrow> collapsed (trimHyphens s)"
proof -
  assume c: "collapsed s"
  define s1 where "s1 = (case s of [] \<Rightarrow> [] | c # cs \<Rightarrow> if c = CHR ''-'' then cs else s)"
  have c1: "collapsed s1" using c by (cases s) (auto simp: s1_def dest: collapsed_tl)
  have t: "trimHyphens s = (if s1 \<noteq> [] \<and> last s1 = CHR ''-'' then butlast s1 else s1)"
    by (simp add: trimHyphens_def s1_def)
  show ?thesis unfolding t using c1 collapsed_butlast[OF c1] by simp
qed

text \<open>
  C7. The category slug is a function of the name (so it is deterministic), applying it
  twice gives the same slug as applying it once, and the slug of
  \<open>Frameworks & Libraries\<close> is \<open>frameworks-libraries\<close>.
\<close>

theorem slugifyCategory_idempotent:
  "slugifyCategory (slugifyCategory s) = slugifyCategory s \<and>
   slugifyCategory ''Frameworks & Libraries'' = ''frameworks-libraries''"
proof
  let ?r = "replaceRuns (toLowerCase s)"
  have c: "collapsed (trimHyphens ?r)" by (rule collapsed_trim[OF collapsed_replaceRuns])
  have "trimHyphens (trimHyphens ?r) = trimHyphens ?r"
    by (rule trim_fix[OF c trim_shape[OF collapsed_replaceRuns]])
  then show "slugifyCategory (slugifyCategory s) = slugifyCategory s"
    by (simp add: slugifyCategory_def toLowerCase_id[OF c] replaceRuns_id[OF c])
next
  show "slugifyCategory ''Frameworks & Libraries'' = ''frameworks-libraries''"
    by code_simp
qed

section \<open>Grouping pages into categories\<close>

lemma map_of_mapSet: "map_of (mapSet k v m) = (map_of m)(k \<mapsto> v)"
  by (induction m) (auto simp: fun_eq_iff)

lemma map_of_mapPush:
  "map_of (mapPush k x m) = (map_of m)(k := map_option (\<lambda>xs. xs @ [x]) (map_of m k))"
  by (induction m) (auto simp: fun_eq_iff)

lemma keys_mapSet_fresh: "k \<notin> fst ` set m \<Longrightarrow> map fst (mapSet k v m) = map fst m @ [k]"
  by (induction m) auto

lemma keys_mapPush: "map fst (mapPush k x m) = map fst m"
  by (induction m) auto

lemma mapHas_iff: "mapHas m k \<longleftrightarrow> k \<in> fst ` set m"
  by (simp add: mapHas_def map_of_eq_None_iff)

lemma mset_mapPush:
  "k \<in> fst ` set m \<Longrightarrow>
   mset (concat (map snd (mapPush k x m))) = add_mset x (mset (concat (map snd m)))"
proof (induction m)
  case Nil
  then show ?case by simp
next
  case (Cons e m)
  obtain k' xs where e: "e = (k', xs)" by (cases e)
  show ?case
  proof (cases "k' = k")
    case True
    with e show ?thesis by simp
  next
    case False
    with Cons.prems e have "k \<in> fst ` set m" by auto
    with Cons.IH False e show ?thesis by simp
  qed
qed

lemma concat_mapSet_fresh:
  "k \<notin> fst ` set m \<Longrightarrow> concat (map snd (mapSet k [] m)) = concat (map snd m)"
  by (induction m) auto

lemma groupStep_skip: "\<not> truthy (nav_category p) \<Longrightarrow> groupStep p st = st"
  by (auto simp: groupStep_def truthy_def split: option.splits)

lemma groupStep_old:
  "nav_category p = Some c \<Longrightarrow> c \<noteq> [] \<Longrightarrow> mapHas (fst st) c \<Longrightarrow>
   groupStep p st = (mapPush c p (fst st), snd st)"
  by (simp add: groupStep_def)

lemma groupStep_new:
  "nav_category p = Some c \<Longrightarrow> c \<noteq> [] \<Longrightarrow> \<not> mapHas (fst st) c \<Longrightarrow>
   groupStep p st =
     (mapPush c p (mapSet c [] (fst st)), mapSet c (numOr (nav_categoryOrder p) 999) (snd st))"
  by (simp add: groupStep_def)

lemma groupStep_cases:
  obtains (skip) "\<not> truthy (nav_category p)" "groupStep p st = st"
  | (old) c where "nav_category p = Some c" "c \<noteq> []" "mapHas (fst st) c"
      "groupStep p st = (mapPush c p (fst st), snd st)"
  | (new) c where "nav_category p = Some c" "c \<noteq> []" "\<not> mapHas (fst st) c"
      "groupStep p st =
        (mapPush c p (mapSet c [] (fst st)), mapSet c (numOr (nav_categoryOrder p) 999) (snd st))"
proof (cases "truthy (nav_category p)")
  case False
  then show ?thesis using skip groupStep_skip by blast
next
  case True
  then obtain c where c: "nav_category p = Some c" "c \<noteq> []"
    by (auto simp: truthy_def split: option.splits)
  show ?thesis
  proof (cases "mapHas (fst st) c")
    case True
    then show ?thesis using old c groupStep_old by blast
  next
    case False
    then show ?thesis using new c groupStep_new by blast
  qed
qed

lemma groupStep_keys_distinct:
  "distinct (map fst (fst st)) \<Longrightarrow> distinct (map fst (fst (groupStep p st)))"
  by (cases p st rule: groupStep_cases) (auto simp: keys_mapPush keys_mapSet_fresh mapHas_iff)

lemma groupStep_mset:
  "mset (concat (map snd (fst (groupStep p st)))) =
     (if truthy (nav_category p) then add_mset p (mset (concat (map snd (fst st))))
      else mset (concat (map snd (fst st))))"
proof (cases p st rule: groupStep_cases)
  case skip
  then show ?thesis by simp
next
  case (old c)
  then show ?thesis by (simp add: mset_mapPush mapHas_iff truthy_def)
next
  case (new c)
  then have "c \<in> fst ` set (mapSet c ([]::HandbookNavItem list) (fst st))"
    using keys_mapSet_fresh[of c "fst st" "[]"] by (metis in_set_conv_decomp list.set_map mapHas_iff)
  then show ?thesis using new by (simp add: mset_mapPush concat_mapSet_fresh mapHas_iff truthy_def)
qed

lemma groupStep_has:
  "mapHas (fst (groupStep p st)) c \<longleftrightarrow> mapHas (fst st) c \<or> inCat c p"
  by (cases p st rule: groupStep_cases)
     (auto simp: mapHas_def map_of_mapPush map_of_mapSet inCat_def truthy_def split: option.splits)

lemma groupStep_items:
  "map_of (fst (groupStep p st)) c =
     (if inCat c p then Some ((case map_of (fst st) c of None \<Rightarrow> [] | Some xs \<Rightarrow> xs) @ [p])
      else map_of (fst st) c)"
  by (cases p st rule: groupStep_cases)
     (auto simp: mapHas_def map_of_mapPush map_of_mapSet inCat_def truthy_def split: option.splits)

lemma groupStep_order:
  "map_of (snd (groupStep p st)) c =
     (if inCat c p \<and> \<not> mapHas (fst st) c then Some (numOr (nav_categoryOrder p) 999)
      else map_of (snd st) c)"
  by (cases p st rule: groupStep_cases)
     (auto simp: mapHas_def map_of_mapPush map_of_mapSet inCat_def truthy_def split: option.splits)

lemma fold_groupStep_distinct:
  "distinct (map fst (fst st)) \<Longrightarrow> distinct (map fst (fst (fold groupStep ps st)))"
  by (induction ps arbitrary: st) (auto simp: groupStep_keys_distinct)

lemma fold_groupStep_mset:
  "mset (concat (map snd (fst (fold groupStep ps st)))) =
     mset (concat (map snd (fst st))) + mset (filter (\<lambda>p. truthy (nav_category p)) ps)"
  by (induction ps arbitrary: st) (auto simp: groupStep_mset)

lemma fold_groupStep_items:
  "map_of (fst (fold groupStep ps st)) c =
     (if filter (inCat c) ps = [] then map_of (fst st) c
      else Some ((case map_of (fst st) c of None \<Rightarrow> [] | Some xs \<Rightarrow> xs) @ filter (inCat c) ps))"
  by (induction ps arbitrary: st) (auto simp: groupStep_items split: option.splits)

lemma fold_groupStep_order:
  "map_of (snd (fold groupStep ps st)) c =
     (if mapHas (fst st) c then map_of (snd st) c
      else case filter (inCat c) ps of
             [] \<Rightarrow> map_of (snd st) c
           | p # _ \<Rightarrow> Some (numOr (nav_categoryOrder p) 999))"
  by (induction ps arbitrary: st) (auto simp: groupStep_order groupStep_has split: list.splits)

lemma groupPages_entry:
  assumes "(k, its) \<in> set (fst (groupPages ps))"
  shows "k \<noteq> [] \<and> its \<noteq> [] \<and> its = filter (inCat k) ps \<and>
         map_of (snd (groupPages ps)) k = Some (numOr (nav_categoryOrder (hd its)) 999)"
proof -
  have d: "distinct (map fst (fst (groupPages ps)))"
    unfolding groupPages_def by (rule fold_groupStep_distinct) simp
  with assms have m: "map_of (fst (groupPages ps)) k = Some its" by simp
  have i: "map_of (fst (groupPages ps)) k =
      (if filter (inCat k) ps = [] then None else Some (filter (inCat k) ps))"
    unfolding groupPages_def by (simp add: fold_groupStep_items)
  from m i have ne: "filter (inCat k) ps \<noteq> []" and eq: "its = filter (inCat k) ps"
    by (auto split: if_splits)
  from ne obtain p where "p \<in> set ps" "inCat k p" by (auto simp: filter_empty_conv)
  then have k: "k \<noteq> []" by (simp add: inCat_def)
  have "map_of (snd (groupPages ps)) k =
      (case filter (inCat k) ps of [] \<Rightarrow> None | p # _ \<Rightarrow> Some (numOr (nav_categoryOrder p) 999))"
    unfolding groupPages_def by (simp add: fold_groupStep_order mapHas_def split: list.splits)
  with ne eq have "map_of (snd (groupPages ps)) k = Some (numOr (nav_categoryOrder (hd its)) 999)"
    by (cases "filter (inCat k) ps") auto
  with k ne eq show ?thesis by simp
qed

lemma numOr_numOr: "numOr (numOr a 999) 999 = numOr a 999"
  by (simp add: numOr_def)

lemma category_char:
  assumes "c \<in> set (categories (buildNavigation pages))"
  shows "cat_name c \<noteq> [] \<and>
         filter (inCat (cat_name c)) (categorizedPages pages) \<noteq> [] \<and>
         cat_items c = sort_key nav_order (filter (inCat (cat_name c)) (categorizedPages pages)) \<and>
         cat_order c =
           numOr (nav_categoryOrder (hd (filter (inCat (cat_name c)) (categorizedPages pages)))) 999 \<and>
         cat_slug c = slugifyCategory (cat_name c)"
proof -
  let ?ps = "categorizedPages pages"
  from assms obtain k its where e: "(k, its) \<in> set (fst (groupPages ?ps))"
    and c: "c = categoryOf (snd (groupPages ?ps)) (k, sort_key nav_order its)"
    by (auto simp: buildNavigation_def Let_def)
  from groupPages_entry[OF e] c show ?thesis
    by (auto simp: categoryOf_def numOr_numOr)
qed

lemma categories_sorted: "sorted (map cat_order (categories (buildNavigation pages)))"
  by (simp add: buildNavigation_def Let_def)

lemma mset_concat_map_cong:
  "mset xs = mset ys \<Longrightarrow> mset (concat (map f xs)) = mset (concat (map f ys))"
proof -
  assume a: "mset xs = mset ys"
  have "\<And>zs. mset (concat (map f zs)) = sum_mset (image_mset (\<lambda>z. mset (f z)) (mset zs))"
    by (induct_tac zs) auto
  with a show ?thesis by simp
qed

lemma mset_concat_sorted_entries:
  "mset (concat (map (\<lambda>e. sort_key k (snd e)) m)) = mset (concat (map snd m))"
  by (induction m) auto

lemma categories_items_mset:
  "mset (concat (map cat_items (categories (buildNavigation pages)))) = mset (categorizedPages pages)"
proof -
  let ?ps = "categorizedPages pages"
  let ?st = "groupPages ?ps"
  let ?cats = "map (categoryOf (snd ?st)) (map (\<lambda>e. (fst e, sort_key nav_order (snd e))) (fst ?st))"
  have t: "filter (\<lambda>p. truthy (nav_category p)) ?ps = ?ps"
    by (simp add: categorizedPages_def)
  have "mset (concat (map cat_items (categories (buildNavigation pages)))) =
        mset (concat (map cat_items ?cats))"
  proof -
    have "categories (buildNavigation pages) = sort_key cat_order ?cats"
      by (simp add: buildNavigation_def Let_def)
    moreover have "mset (concat (map cat_items (sort_key cat_order ?cats))) =
        mset (concat (map cat_items ?cats))"
      by (rule mset_concat_map_cong) simp
    ultimately show ?thesis by simp
  qed
  also have "\<dots> = mset (concat (map (\<lambda>e. sort_key nav_order (snd e)) (fst ?st)))"
    by (simp add: comp_def categoryOf_def)
  also have "\<dots> = mset (concat (map snd (fst ?st)))"
    by (rule mset_concat_sorted_entries)
  also have "\<dots> = mset ?ps"
    unfolding groupPages_def by (simp add: fold_groupStep_mset t)
  finally show ?thesis .
qed

lemma category_items_set:
  "set (concat (map cat_items (categories (buildNavigation pages)))) = set (categorizedPages pages)"
  by (rule mset_eq_setD[OF categories_items_mset])

lemma getHandbookNavigation_Inr:
  "getHandbookNavigation dir = Inr nav \<Longrightarrow> allPages dir = Inr pages \<Longrightarrow> nav = buildNavigation pages"
  by (simp add: getHandbookNavigation_def)

lemma filter_inCat_categorized:
  "k \<noteq> [] \<Longrightarrow>
   filter (inCat k) (categorizedPages pages) =
   filter (\<lambda>p. nav_slug p \<noteq> [] \<and> nav_category p = Some k) pages"
  by (auto simp: categorizedPages_def inCat_def truthy_def intro!: filter_cong)

lemma find_hd_filter: "find P xs = Some x \<Longrightarrow> hd (filter P xs) = x"
  by (induction xs) (auto split: if_splits)

text \<open>The navigation is built whenever every markdown file of the directory can be read
  and parsed.\<close>

lemma mapResult_total:
  "(\<And>x. x \<in> set xs \<Longrightarrow> \<exists>y. f x = Inr y) \<Longrightarrow> \<exists>ys. mapResult f xs = Inr ys"
proof (induction xs)
  case Nil
  then show ?case by simp
next
  case (Cons x xs)
  from Cons.prems[of x] obtain y where y: "f x = Inr y" by auto
  from Cons.IH Cons.prems obtain ys where "mapResult f xs = Inr ys" by auto
  with y show ?case by simp
qed

lemma getHandbookNavigation_returns:
  assumes "\<And>n. n \<in> set (readdirSync dir) \<Longrightarrow> endsWithMd n \<Longrightarrow>
             \<exists>d b. map_of dir n = Some (Parsed d b)"
  shows "\<exists>nav. getHandbookNavigation dir = Inr nav"
proof -
  have "\<exists>p. navItemOfFile dir n = Inr p" if "n \<in> set (filter endsWithMd (readdirSync dir))" for n
    using assms[of n] that by (auto simp: navItemOfFile_def readMatter_def)
  then obtain pages where "allPages dir = Inr pages"
    unfolding allPages_def using mapResult_total[of _ "navItemOfFile dir"] by blast
  then show ?thesis by (simp add: getHandbookNavigation_def)
qed

section \<open>Sorted categories and items\<close>

text \<open>
  C3. In the navigation built from a content directory the categories are sorted by
  ascending order, the items of every category are sorted by ascending order, and the
  sort is stable: for every order \<open>k\<close>, the items of a category with order \<open>k\<close> are the
  pages of that category with order \<open>k\<close> in the order in which the files were enumerated
  (\<open>pages\<close> is the list of pages in that order).
\<close>

theorem navigation_sorted_stable:
  assumes "allPages dir = Inr pages" and "getHandbookNavigation dir = Inr nav"
  shows "sorted (map cat_order (categories nav)) \<and>
         (\<forall>c \<in> set (categories nav).
            sorted (map nav_order (cat_items c)) \<and>
            (\<forall>k. filter (\<lambda>p. nav_order p = k) (cat_items c) =
                 filter (\<lambda>p. nav_order p = k)
                   (filter (\<lambda>p. nav_slug p \<noteq> [] \<and> nav_category p = Some (cat_name c)) pages)))"
proof -
  have nav: "nav = buildNavigation pages"
    by (rule getHandbookNavigation_Inr[OF assms(2) assms(1)])
  have "sorted (map cat_order (categories nav))"
    unfolding nav by (rule categories_sorted)
  moreover have "sorted (map nav_order (cat_items c)) \<and>
      (\<forall>k. filter (\<lambda>p. nav_order p = k) (cat_items c) =
           filter (\<lambda>p. nav_order p = k)
             (filter (\<lambda>p. nav_slug p \<noteq> [] \<and> nav_category p = Some (cat_name c)) pages))"
    if c: "c \<in> set (categories nav)" for c
  proof -
    from category_char[OF c[unfolded nav]]
    have ne: "cat_name c \<noteq> []"
      and items: "cat_items c = sort_key nav_order (filter (inCat (cat_name c)) (categorizedPages pages))"
      by simp_all
    show ?thesis
      unfolding items filter_inCat_categorized[OF ne]
      by (simp add: sort_key_stable)
  qed
  ultimately show ?thesis by blast
qed

theorem navigation_sorted_stable_witness:
  "allPages tieDir = Inr tiePages \<and> getHandbookNavigation tieDir = Inr tieNav \<and>
   categories tieNav ! 1 = tieCategoryX \<and>
   map cat_order (categories tieNav) = [1, 2] \<and>
   sorted (map cat_order (categories tieNav)) \<and>
   map nav_slug (cat_items tieCategoryX) = [''b'', ''a'', ''c''] \<and>
   map nav_order (cat_items tieCategoryX) = [0, 1, 1] \<and>
   sorted (map nav_order (cat_items tieCategoryX)) \<and>
   filter (\<lambda>p. nav_order p = 1) (cat_items tieCategoryX) =
     filter (\<lambda>p. nav_order p = 1)
       (filter (\<lambda>p. nav_slug p \<noteq> [] \<and> nav_category p = Some (cat_name tieCategoryX)) tiePages)"
proof -
  have p: "allPages tieDir = Inr tiePages" by code_simp
  have n: "getHandbookNavigation tieDir = Inr tieNav" by code_simp
  have c: "tieCategoryX \<in> set (categories tieNav)" by (simp add: tieNav_def)
  have e: "categories tieNav ! 1 = tieCategoryX" by (simp add: tieNav_def)
  have o: "map cat_order (categories tieNav) = [1, 2]" by (simp add: tieNav_def tieCategoryX_def)
  have s: "map nav_slug (cat_items tieCategoryX) = [''b'', ''a'', ''c'']"
    by (simp add: tieCategoryX_def navItem_def)
  have r: "map nav_order (cat_items tieCategoryX) = [0, 1, 1]"
    by (simp add: tieCategoryX_def navItem_def)
  from navigation_sorted_stable[OF p n] c p n e o s r show ?thesis by blast
qed

section \<open>The order of a category\<close>

text \<open>The order of a category comes from the first page with a non-empty slug that is filed
  under it, with zero replaced by 999.\<close>

lemma first_categorized_order:
  assumes "allPages dir = Inr pages" and "getHandbookNavigation dir = Inr nav"
    and "c \<in> set (categories nav)"
    and "find (\<lambda>p. nav_slug p \<noteq> [] \<and> nav_category p = Some (cat_name c)) pages = Some p0"
  shows "cat_order c = numOr (nav_categoryOrder p0) 999"
proof -
  have nav: "nav = buildNavigation pages"
    by (rule getHandbookNavigation_Inr[OF assms(2) assms(1)])
  from category_char[OF assms(3)[unfolded nav]]
  have ne: "cat_name c \<noteq> []"
    and ord: "cat_order c =
      numOr (nav_categoryOrder (hd (filter (inCat (cat_name c)) (categorizedPages pages)))) 999"
    by simp_all
  show ?thesis
    unfolding ord filter_inCat_categorized[OF ne] find_hd_filter[OF assms(4)] ..
qed

text \<open>
  C4, as stated, fails: the order of a category need not be the \<open>categoryOrder\<close> of the first
  enumerated file that declares the category. In \<open>indexCatDir\<close> the first file, \<open>index.md\<close>,
  declares the category \<open>X\<close> with \<open>categoryOrder\<close> 5 and the second declares \<open>X\<close> with 1:
  the introduction is never grouped, and the category \<open>X\<close> has order 1. In \<open>zeroFirstDir\<close>
  the first file declares the category \<open>Z\<close> with \<open>categoryOrder\<close> 0 and the second with 3:
  the category \<open>Z\<close> has order 999.
\<close>

theorem category_order_counterexample:
  "hd (readdirSync indexCatDir) = ''index.md'' \<and>
   readMatter indexCatDir ''index.md'' = Inr (fmIn ''Intro'' 0 ''X'' 5, ''i'') \<and>
   fm_category (fmIn ''Intro'' 0 ''X'' 5) = Some ''X'' \<and>
   fm_categoryOrder (fmIn ''Intro'' 0 ''X'' 5) = Some 5 \<and>
   getHandbookNavigation indexCatDir = Inr indexCatNav \<and>
   map cat_name (categories indexCatNav) = [''X''] \<and>
   map cat_order (categories indexCatNav) = [1] \<and>
   hd (readdirSync zeroFirstDir) = ''a.md'' \<and>
   readMatter zeroFirstDir ''a.md'' = Inr (fmIn ''A'' 1 ''Z'' 0, ''a'') \<and>
   fm_category (fmIn ''A'' 1 ''Z'' 0) = Some ''Z'' \<and>
   fm_categoryOrder (fmIn ''A'' 1 ''Z'' 0) = Some 0 \<and>
   getHandbookNavigation zeroFirstDir = Inr zeroFirstNav \<and>
   map cat_name (categories zeroFirstNav) = [''Z''] \<and>
   map cat_order (categories zeroFirstNav) = [999]"
  by code_simp

text \<open>
  C4, amended. The order of a category is the \<open>categoryOrder\<close> of the first enumerated page
  with a non-empty slug that declares the category (999 when that page declares none),
  provided this value is not zero; pages enumerated later do not change it.
\<close>

theorem category_order_first_wins:
  assumes "allPages dir = Inr pages" and "getHandbookNavigation dir = Inr nav"
    and "c \<in> set (categories nav)"
    and "find (\<lambda>p. nav_slug p \<noteq> [] \<and> nav_category p = Some (cat_name c)) pages = Some p0"
    and "nav_categoryOrder p0 \<noteq> 0"
  shows "cat_order c = nav_categoryOrder p0"
  using first_categorized_order[OF assms(1-4)] assms(5) by (simp add: numOr_def)

theorem category_order_first_wins_witness:
  "allPages firstWinsDir = Inr firstWinsPages \<and>
   getHandbookNavigation firstWinsDir = Inr firstWinsNav \<and>
   categories firstWinsNav ! 1 = firstWinsCategoryX \<and>
   find (\<lambda>p. nav_slug p \<noteq> [] \<and> nav_category p = Some (cat_name firstWinsCategoryX)) firstWinsPages
     = Some (navItem ''a'' ''A'' 2 ''X'' 5) \<and>
   map nav_categoryOrder firstWinsPages = [5, 1, 3] \<and>
   cat_order firstWinsCategoryX = nav_categoryOrder (navItem ''a'' ''A'' 2 ''X'' 5) \<and>
   cat_order firstWinsCategoryX = 5"
proof -
  have p: "allPages firstWinsDir = Inr firstWinsPages" by code_simp
  have n: "getHandbookNavigation firstWinsDir = Inr firstWinsNav" by code_simp
  have c: "firstWinsCategoryX \<in> set (categories firstWinsNav)" by (simp add: firstWinsNav_def)
  have e: "categories firstWinsNav ! 1 = firstWinsCategoryX" by (simp add: firstWinsNav_def)
  have f: "find (\<lambda>p. nav_slug p \<noteq> [] \<and> nav_category p = Some (cat_name firstWinsCategoryX))
             firstWinsPages = Some (navItem ''a'' ''A'' 2 ''X'' 5)"
    by (simp add: firstWinsPages_def firstWinsCategoryX_def navItem_def)
  have z: "nav_categoryOrder (navItem ''a'' ''A'' 2 ''X'' 5) \<noteq> 0" by (simp add: navItem_def)
  have m: "map nav_categoryOrder firstWinsPages = [5, 1, 3]"
    by (simp add: firstWinsPages_def navItem_def)
  have v: "cat_order firstWinsCategoryX = 5" by (simp add: firstWinsCategoryX_def)
  from category_order_first_wins[OF p n c f z] p n e f m v show ?thesis by simp
qed

lemma navItemOfFile_fields:
  assumes "navItemOfFile dir f = Inr p" and "readMatter dir f = Inr (d, b)"
  shows "nav_order p = nullish (fm_order d) 999 \<and>
         nav_categoryOrder p = nullish (fm_categoryOrder d) 999 \<and>
         nav_category p = strOrNull (fm_category d) \<and> nav_slug p = slugOfFile f"
  using assms by (auto simp: navItemOfFile_def)

text \<open>
  C9. When the first page with a non-empty slug filed under a category comes from a file
  that declares \<open>categoryOrder: 0\<close>, the page keeps the 0 but the category gets the order
  999, as if no order had been declared; a declared page order of 0 is kept. In
  \<open>zeroDir\<close> the category \<open>Z\<close>, declared with 0, sorts after the category with order 1, and
  its page with order 0 comes first.
\<close>

theorem categoryOrder_zero_is_sentinel:
  assumes "allPages dir = Inr pages" and "getHandbookNavigation dir = Inr nav"
    and "c \<in> set (categories nav)"
    and "find (\<lambda>p. nav_slug p \<noteq> [] \<and> nav_category p = Some (cat_name c)) pages = Some p0"
    and "navItemOfFile dir f0 = Inr p0" and "readMatter dir f0 = Inr (d0, b0)"
    and "fm_categoryOrder d0 = Some 0"
  shows "nav_categoryOrder p0 = 0 \<and> cat_order c = 999 \<and>
         (\<forall>f d b p. navItemOfFile dir f = Inr p \<and> readMatter dir f = Inr (d, b) \<and>
                    fm_order d = Some 0 \<longrightarrow> nav_order p = 0)"
proof -
  have z: "nav_categoryOrder p0 = 0"
    using navItemOfFile_fields[OF assms(5,6)] assms(7) by (simp add: nullish_def)
  have "cat_order c = 999"
    using first_categorized_order[OF assms(1-4)] z by (simp add: numOr_def)
  moreover have "nav_order p = 0"
    if "navItemOfFile dir f = Inr p" "readMatter dir f = Inr (d, b)" "fm_order d = Some 0"
    for f d b p
    using navItemOfFile_fields[OF that(1,2)] that(3) by (simp add: nullish_def)
  ultimately show ?thesis using z by blast
qed

theorem categoryOrder_zero_is_sentinel_witness:
  "allPages zeroDir = Inr zeroPages \<and> getHandbookNavigation zeroDir = Inr zeroNav \<and>
   categories zeroNav ! 1 = zeroCategoryZ \<and>
   readMatter zeroDir ''a.md'' = Inr (fmIn ''A'' 5 ''Z'' 0, ''a'') \<and>
   fm_categoryOrder (fmIn ''A'' 5 ''Z'' 0) = Some 0 \<and>
   readMatter zeroDir ''b.md'' = Inr (fmIn ''B'' 0 ''Z'' 0, ''b'') \<and>
   fm_order (fmIn ''B'' 0 ''Z'' 0) = Some 0 \<and>
   cat_order zeroCategoryZ = 999 \<and>
   map cat_name (categories zeroNav) = [''Y'', ''Z''] \<and>
   map cat_order (categories zeroNav) = [1, 999] \<and>
   map nav_slug (cat_items zeroCategoryZ) = [''b'', ''a''] \<and>
   map nav_order (cat_items zeroCategoryZ) = [0, 5]"
proof -
  have p: "allPages zeroDir = Inr zeroPages" by code_simp
  have n: "getHandbookNavigation zeroDir = Inr zeroNav" by code_simp
  have c: "zeroCategoryZ \<in> set (categories zeroNav)" by (simp add: zeroNav_def)
  have e: "categories zeroNav ! 1 = zeroCategoryZ" by (simp add: zeroNav_def)
  have f: "find (\<lambda>p. nav_slug p \<noteq> [] \<and> nav_category p = Some (cat_name zeroCategoryZ)) zeroPages
             = Some (navItem ''a'' ''A'' 5 ''Z'' 0)"
    by (simp add: zeroPages_def zeroCategoryZ_def navItem_def)
  have i: "navItemOfFile zeroDir ''a.md'' = Inr (navItem ''a'' ''A'' 5 ''Z'' 0)" by code_simp
  have ra: "readMatter zeroDir ''a.md'' = Inr (fmIn ''A'' 5 ''Z'' 0, ''a'')" by code_simp
  have rb: "readMatter zeroDir ''b.md'' = Inr (fmIn ''B'' 0 ''Z'' 0, ''b'')" by code_simp
  have da: "fm_categoryOrder (fmIn ''A'' 5 ''Z'' 0) = Some 0" by (simp add: fmIn_def)
  have db: "fm_order (fmIn ''B'' 0 ''Z'' 0) = Some 0" by (simp add: fmIn_def)
  have m: "map cat_name (categories zeroNav) = [''Y'', ''Z'']"
    "map cat_order (categories zeroNav) = [1, 999]"
    "map nav_slug (cat_items zeroCategoryZ) = [''b'', ''a'']"
    "map nav_order (cat_items zeroCategoryZ) = [0, 5]"
    by (simp_all add: zeroNav_def zeroCategoryZ_def navItem_def)
  from categoryOrder_zero_is_sentinel[OF p n c f i ra da] p n e ra rb da db m
  show ?thesis by simp
qed

section \<open>File names, slugs and pages\<close>

lemma endsWithMd_split: "endsWithMd n \<Longrightarrow> n = stripMd n @ ''.md''"
  by (simp add: endsWithMd_def stripMd_def) (metis append_take_drop_id)

lemma slugOfFile_nonempty: "slugOfFile n \<noteq> [] \<Longrightarrow> slugOfFile n = stripMd n"
  by (simp add: slugOfFile_def split: if_splits)

lemma slugOfFile_inj:
  assumes "endsWithMd n" "endsWithMd m" "slugOfFile n = slugOfFile m" "slugOfFile n \<noteq> []"
  shows "n = m"
proof -
  have "stripMd n = stripMd m"
    using assms(3,4) slugOfFile_nonempty[of n] slugOfFile_nonempty[of m] by simp
  then show ?thesis using endsWithMd_split[OF assms(1)] endsWithMd_split[OF assms(2)] by simp
qed

lemma pageFileName_slugOfFile:
  assumes "endsWithMd n" "stripMd n \<noteq> []"
  shows "pageFileName (slugOfFile n) = n"
  using endsWithMd_split[OF assms(1)] assms(2)
  by (auto simp: pageFileName_def slugOfFile_def)

lemma mapResult_Inr_set:
  "mapResult f xs = Inr ys \<Longrightarrow> y \<in> set ys \<Longrightarrow> \<exists>x \<in> set xs. f x = Inr y"
  by (induction xs arbitrary: ys) (auto split: sum.splits)

lemma mapResult_Inr_map:
  "mapResult f xs = Inr ys \<Longrightarrow> (\<And>x y. f x = Inr y \<Longrightarrow> g y = h x) \<Longrightarrow> map g ys = map h xs"
  by (induction xs arbitrary: ys) (auto split: sum.splits)

lemma navItemOfFile_slug: "navItemOfFile dir n = Inr p \<Longrightarrow> nav_slug p = slugOfFile n"
  by (auto simp: navItemOfFile_def split: sum.splits)

lemma allPages_slugs: "allPages dir = Inr pages \<Longrightarrow> map nav_slug pages = getAllHandbookSlugs dir"
  unfolding allPages_def getAllHandbookSlugs_def
  by (erule mapResult_Inr_map) (rule navItemOfFile_slug)







section \<open>Pages without a category\<close>

lemma strOrNull_falsy: "\<not> truthy a \<Longrightarrow> strOrNull a = None"
  by (auto simp: truthy_def strOrNull_def split: option.splits)

lemma uncategorized_not_categorized:
  assumes "allPages dir = Inr pages" and "readMatter dir fileName = Inr (d, body)"
    and "endsWithMd fileName" and "slugOfFile fileName \<noteq> []" and "\<not> truthy (fm_category d)"
  shows "slugOfFile fileName \<notin> nav_slug ` set (categorizedPages pages)"
proof
  assume "slugOfFile fileName \<in> nav_slug ` set (categorizedPages pages)"
  then obtain p where p: "p \<in> set pages" "truthy (nav_category p)"
    "nav_slug p = slugOfFile fileName"
    by (auto simp: categorizedPages_def)
  from mapResult_Inr_set[OF assms(1)[unfolded allPages_def] p(1)]
  obtain n where n: "endsWithMd n" "navItemOfFile dir n = Inr p" by auto
  from navItemOfFile_slug[OF n(2)] p(3) have "slugOfFile n = slugOfFile fileName" by simp
  with assms(3,4) n(1) have "n = fileName" by (metis slugOfFile_inj)
  with n(2) assms(2) have "nav_category p = strOrNull (fm_category d)"
    by (auto simp: navItemOfFile_def)
  with strOrNull_falsy[OF assms(5)] p(2) show False by (simp add: truthy_def)
qed

text \<open>
  C10. A markdown file with a non-empty slug whose front matter declares no category, or
  the empty string, is in no category of the navigation and not in the flattened list,
  while \<open>getHandbookPage\<close> returns its page. Every item of a category has a non-empty slug
  and a category; the introduction is the only item that may lack one, and its slug is
  empty.
\<close>

theorem uncategorized_page_outside_navigation:
  assumes "readMatter dir fileName = Inr (d, body)" and "endsWithMd fileName"
    and "slugOfFile fileName \<noteq> []" and "\<not> truthy (fm_category d)"
    and "getHandbookNavigation dir = Inr nav"
  shows "(\<forall>c \<in> set (categories nav). slugOfFile fileName \<notin> nav_slug ` set (cat_items c)) \<and>
         getAllHandbookPages dir = Inr (flatten nav) \<and>
         slugOfFile fileName \<notin> nav_slug ` set (flatten nav) \<and>
         (\<exists>p. getHandbookPage render dir (slugOfFile fileName) = Inr (Some p) \<and>
              page_category p = None) \<and>
         (\<forall>c \<in> set (categories nav). \<forall>it \<in> set (cat_items c).
              nav_slug it \<noteq> [] \<and> truthy (nav_category it)) \<and>
         (\<forall>it. introduction nav = Some it \<longrightarrow> nav_slug it = [])"
proof -
  from assms(5) obtain pages where pages: "allPages dir = Inr pages"
    and nav: "nav = buildNavigation pages"
    by (auto simp: getHandbookNavigation_def split: sum.splits)
  let ?s = "slugOfFile fileName"
  have items: "set (concat (map cat_items (categories nav))) = set (categorizedPages pages)"
    unfolding nav by (rule category_items_set)
  have notin: "?s \<notin> nav_slug ` set (categorizedPages pages)"
    by (rule uncategorized_not_categorized[OF pages assms(1-4)])
  have c1: "\<forall>c \<in> set (categories nav). ?s \<notin> nav_slug ` set (cat_items c)"
  proof
    fix c assume "c \<in> set (categories nav)"
    then have "set (cat_items c) \<subseteq> set (categorizedPages pages)"
      using items by auto
    with notin show "?s \<notin> nav_slug ` set (cat_items c)" by auto
  qed
  have c2: "getAllHandbookPages dir = Inr (flatten nav)"
    using assms(5) by (simp add: getAllHandbookPages_def)
  have intro: "nav_slug it = []" if "introduction nav = Some it" for it
    using that unfolding nav by (auto simp: buildNavigation_def Let_def find_Some_iff)
  have c3: "?s \<notin> nav_slug ` set (flatten nav)"
  proof
    assume "?s \<in> nav_slug ` set (flatten nav)"
    then obtain it where it: "it \<in> set (flatten nav)" "nav_slug it = ?s" by auto
    from it(1) have "introduction nav = Some it \<or> it \<in> set (concat (map cat_items (categories nav)))"
      by (auto simp: flatten_def split: option.splits)
    then show False
    proof
      assume "introduction nav = Some it"
      with intro it(2) assms(3) show False by simp
    next
      assume "it \<in> set (concat (map cat_items (categories nav)))"
      with items have "it \<in> set (categorizedPages pages)" by simp
      then have "nav_slug it \<in> nav_slug ` set (categorizedPages pages)" by (rule imageI)
      with it(2) notin show False by simp
    qed
  qed
  have ne: "stripMd fileName \<noteq> []" using assms(3) by (auto simp: slugOfFile_def split: if_splits)
  have fn: "pageFileName ?s = fileName" by (rule pageFileName_slugOfFile[OF assms(2) ne])
  have ex: "existsSync dir fileName"
    using assms(1) by (auto simp: existsSync_def readMatter_def split: option.splits)
  have c4: "\<exists>p. getHandbookPage render dir ?s = Inr (Some p) \<and> page_category p = None"
    using assms(1) ex strOrNull_falsy[OF assms(4)] by (simp add: getHandbookPage_def fn)
  have c5: "\<forall>c \<in> set (categories nav). \<forall>it \<in> set (cat_items c).
              nav_slug it \<noteq> [] \<and> truthy (nav_category it)"
  proof (intro ballI)
    fix c it assume "c \<in> set (categories nav)" "it \<in> set (cat_items c)"
    then have "it \<in> set (categorizedPages pages)" using items by auto
    then show "nav_slug it \<noteq> [] \<and> truthy (nav_category it)"
      by (simp add: categorizedPages_def)
  qed
  from c1 c2 c3 c4 c5 intro show ?thesis by blast
qed

theorem uncategorized_page_outside_navigation_witness:
  "readMatter exampleDir ''about.md'' = Inr (fmPlain ''About'' 1, ''a'') \<and>
   endsWithMd ''about.md'' \<and> slugOfFile ''about.md'' = ''about'' \<and>
   \<not> truthy (fm_category (fmPlain ''About'' 1)) \<and>
   getHandbookNavigation exampleDir = Inr exampleNav \<and>
   getAllHandbookPages exampleDir = Inr (flatten exampleNav) \<and>
   map nav_slug (flatten exampleNav) = [[], ''variables'', ''control-flow'', ''react''] \<and>
   ''about'' \<notin> nav_slug ` set (flatten exampleNav) \<and>
   getHandbookPage verbatim exampleDir ''about'' = Inr (Some (aboutPage verbatim))"
proof -
  have r: "readMatter exampleDir ''about.md'' = Inr (fmPlain ''About'' 1, ''a'')" by code_simp
  have e: "endsWithMd ''about.md''" by code_simp
  have s: "slugOfFile ''about.md'' = ''about''" by code_simp
  have s': "slugOfFile ''about.md'' \<noteq> []" by (simp add: s)
  have t: "\<not> truthy (fm_category (fmPlain ''About'' 1))" by (simp add: fmPlain_def truthy_def)
  have n: "getHandbookNavigation exampleDir = Inr exampleNav" by code_simp
  have f: "map nav_slug (flatten exampleNav) = [[], ''variables'', ''control-flow'', ''react'']"
    by code_simp
  have g: "getHandbookPage verbatim exampleDir ''about'' = Inr (Some (aboutPage verbatim))"
    by code_simp
  from uncategorized_page_outside_navigation[OF r e s' t n, of verbatim] r e s t n f g
  show ?thesis by simp
qed

section \<open>Previous and next page\<close>

lemma findIndex_absent: "\<forall>x \<in> set xs. \<not> P x \<Longrightarrow> findIndex P xs = - 1"
  by (induction xs) auto

lemma findIndex_ge: "- 1 \<le> findIndex P xs"
  by (induction xs) auto

lemma nextPage_of_absent_slug:
  assumes "pages \<noteq> []" and "page_slug page \<notin> nav_slug ` set pages"
  shows "prevPage page pages = None \<and> nextPage page pages = Some (hd pages)"
proof -
  have "currentIndex page pages = - 1"
    unfolding currentIndex_def using assms(2) by (intro findIndex_absent) force
  with assms(1) show ?thesis
    by (cases pages) (simp_all add: prevPage_def nextPage_def at_def)
qed

text \<open>
  C1. The claim is that a slug outside a non-empty flattened list has neither a previous nor
  a next page. In the code the index of such a slug is \<open>-1\<close>, which is smaller than
  \<open>pages.length - 1\<close>, so the next page is \<open>pages[0]\<close>. The page \<open>about\<close> below has no
  category: \<open>getHandbookPage\<close> returns it, the flattened list holds the introduction only,
  and the next page of \<open>about\<close> is the introduction.
\<close>

theorem next_of_page_outside_navigation:
  "getAllHandbookPages introOnlyDir = Inr [introItem] \<and>
   getHandbookPage render introOnlyDir ''about'' = Inr (Some (aboutPage render)) \<and>
   currentIndex (aboutPage render) [introItem] = - 1 \<and>
   prevPage (aboutPage render) [introItem] = None \<and>
   nextPage (aboutPage render) [introItem] = Some introItem"
  by code_simp

lemma distinct_nonempty_slugs:
  assumes "distinct (readdirSync dir)"
  shows "distinct (filter (\<lambda>s. s \<noteq> []) (getAllHandbookSlugs dir))"
proof -
  let ?ns = "filter endsWithMd (readdirSync dir)"
  have d: "distinct (filter (\<lambda>n. slugOfFile n \<noteq> []) ?ns)" using assms by simp
  have "inj_on slugOfFile (set (filter (\<lambda>n. slugOfFile n \<noteq> []) ?ns))"
    by (rule inj_onI) (auto intro: slugOfFile_inj)
  with d have "distinct (map slugOfFile (filter (\<lambda>n. slugOfFile n \<noteq> []) ?ns))"
    by (simp add: distinct_map)
  then show ?thesis by (simp add: getAllHandbookSlugs_def filter_map comp_def)
qed

lemma categorized_slugs_distinct:
  assumes "distinct (readdirSync dir)" and "allPages dir = Inr pages"
  shows "distinct (map nav_slug (categorizedPages pages))"
proof -
  have "distinct (filter (\<lambda>s. s \<noteq> []) (map nav_slug pages))"
    using distinct_nonempty_slugs[OF assms(1)] allPages_slugs[OF assms(2)] by simp
  then have "distinct (map nav_slug (filter (\<lambda>p. nav_slug p \<noteq> []) pages))"
    by (simp add: filter_map comp_def)
  then have "distinct (map nav_slug (filter (\<lambda>p. truthy (nav_category p))
      (filter (\<lambda>p. nav_slug p \<noteq> []) pages)))"
    by (rule distinct_map_filter)
  then show ?thesis by (simp add: categorizedPages_def conj_commute)
qed

lemma flatten_slugs_distinct:
  assumes "distinct (readdirSync dir)" and "allPages dir = Inr pages"
  shows "distinct (map nav_slug (flatten (buildNavigation pages)))"
proof -
  let ?items = "concat (map cat_items (categories (buildNavigation pages)))"
  have m: "mset (map nav_slug ?items) = mset (map nav_slug (categorizedPages pages))"
    by (simp add: categories_items_mset)
  have d: "distinct (map nav_slug ?items)"
    using mset_eq_imp_distinct_iff[OF m] categorized_slugs_distinct[OF assms] by simp
  have "set (map nav_slug ?items) = set (map nav_slug (categorizedPages pages))"
    by (rule mset_eq_setD[OF m])
  then have e: "[] \<notin> set (map nav_slug ?items)"
    by (auto simp: categorizedPages_def)
  have i: "introduction (buildNavigation pages) = find (\<lambda>p. nav_slug p = []) pages"
    by (simp add: buildNavigation_def Let_def)
  show ?thesis
  proof (cases "find (\<lambda>p. nav_slug p = []) pages")
    case None
    with d i show ?thesis by (simp add: flatten_def)
  next
    case (Some a)
    then have "nav_slug a = []" by (auto simp: find_Some_iff)
    with d e i Some show ?thesis by (simp add: flatten_def)
  qed
qed

lemma findIndex_nth:
  "distinct (map f xs) \<Longrightarrow> i < length xs \<Longrightarrow> findIndex (\<lambda>p. f p = f (xs ! i)) xs = int i"
proof (induction xs arbitrary: i)
  case Nil
  then show ?case by simp
next
  case (Cons x xs)
  show ?case
  proof (cases i)
    case 0
    then show ?thesis by simp
  next
    case (Suc j)
    with Cons.prems have j: "j < length xs" and d: "distinct (map f xs)" by simp_all
    from Cons.prems Suc j have "f x \<noteq> f (xs ! j)" by (auto simp: image_iff)
    with Cons.IH[OF d j] Suc show ?thesis by simp
  qed
qed

lemma prevNext_at_position:
  assumes "distinct (map nav_slug pages)" and "i < length pages"
    and "page_slug page = nav_slug (pages ! i)"
  shows "prevPage page pages = (if i = 0 then None else Some (pages ! (i - 1))) \<and>
         nextPage page pages = (if i = length pages - 1 then None else Some (pages ! (i + 1)))"
proof -
  have c: "currentIndex page pages = int i"
    unfolding currentIndex_def assms(3) by (rule findIndex_nth[OF assms(1,2)])
  show ?thesis
    using assms(2)
    by (auto simp: prevPage_def nextPage_def c at_def nat_diff_distrib nat_add_distrib
        numeral_2_eq_2)
qed

text \<open>
  C2. In the flattened list of a content directory (the names of its entries are
  distinct), the page at the first position has no
  previous page, the page at the last position has no next page, and otherwise the
  previous and the next page of the page at position \<open>i\<close> are the pages at positions
  \<open>i - 1\<close> and \<open>i + 1\<close>. The slugs of a flattened list are distinct, so the position of a
  slug is the index that \<open>findIndex\<close> returns.
\<close>

theorem prev_next_in_flattened_list:
  assumes "distinct (readdirSync dir)" and "getAllHandbookPages dir = Inr pages"
    and "i < length pages" and "page_slug page = nav_slug (pages ! i)"
  shows "prevPage page pages = (if i = 0 then None else Some (pages ! (i - 1))) \<and>
         nextPage page pages = (if i = length pages - 1 then None else Some (pages ! (i + 1)))"
proof -
  from assms(2) obtain ps where ps: "allPages dir = Inr ps" and f: "pages = flatten (buildNavigation ps)"
    by (auto simp: getAllHandbookPages_def getHandbookNavigation_def split: sum.splits)
  have "distinct (map nav_slug pages)"
    unfolding f by (rule flatten_slugs_distinct[OF assms(1) ps])
  then show ?thesis by (rule prevNext_at_position[OF _ assms(3,4)])
qed

theorem prev_next_in_flattened_list_witness:
  "distinct (readdirSync exampleDir) \<and> getAllHandbookPages exampleDir = Inr examplePages \<and>
   examplePages ! 0 = introItem \<and> examplePages ! 1 = variablesItem \<and>
   examplePages ! 2 = controlFlowItem \<and> examplePages ! 3 = reactItem \<and>
   prevPage introPage examplePages = None \<and>
   nextPage introPage examplePages = Some variablesItem \<and>
   prevPage variablesPage examplePages = Some introItem \<and>
   nextPage variablesPage examplePages = Some controlFlowItem \<and>
   prevPage reactPage examplePages = Some controlFlowItem \<and>
   nextPage reactPage examplePages = None"
proof -
  have d: "distinct (readdirSync exampleDir)" by code_simp
  have g: "getAllHandbookPages exampleDir = Inr examplePages" by code_simp
  have l: "length examplePages = 4" by (simp add: examplePages_def)
  have s0: "page_slug introPage = nav_slug (examplePages ! 0)"
    by (simp add: examplePages_def introPage_def introItem_def)
  have s1: "page_slug variablesPage = nav_slug (examplePages ! 1)"
    by (simp add: examplePages_def variablesPage_def variablesItem_def)
  have s3: "page_slug reactPage = nav_slug (examplePages ! 3)"
    by (simp add: examplePages_def reactPage_def reactItem_def)
  have i0: "0 < length examplePages" and i1: "1 < length examplePages"
    and i3: "3 < length examplePages" by (simp_all add: l)
  from prev_next_in_flattened_list[OF d g i0 s0] prev_next_in_flattened_list[OF d g i1 s1]
    prev_next_in_flattened_list[OF d g i3 s3] d g
  show ?thesis by (simp add: examplePages_def)
qed

section \<open>Breadcrumbs\<close>

lemma getHandbookPage_category:
  "getHandbookPage render dir slug = Inr (Some page) \<Longrightarrow> page_category page \<noteq> Some []"
  by (auto simp: getHandbookPage_def strOrNull_def split: if_splits sum.splits option.splits prod.splits)

text \<open>
  C8. For a page returned by \<open>getHandbookPage\<close>, the breadcrumb list has the three entries
  Home, Handbook and the page at positions 1, 2, 3 when the page has no category, and the
  four entries Home, Handbook, the category and the page at positions 1, 2, 3, 4 when it
  has one.
\<close>

theorem breadcrumb_depth:
  assumes "getHandbookPage render dir slug = Inr (Some page)"
  shows "case page_category page of
           None \<Rightarrow>
             map li_name (generateBreadcrumbJsonLd page slug) =
               [''Home'', ''Front-end Engineer Handbook'', page_title page] \<and>
             map li_position (generateBreadcrumbJsonLd page slug) = [1, 2, 3]
         | Some c \<Rightarrow>
             map li_name (generateBreadcrumbJsonLd page slug) =
               [''Home'', ''Front-end Engineer Handbook'', c, page_title page] \<and>
             map li_position (generateBreadcrumbJsonLd page slug) = [1, 2, 3, 4]"
  using getHandbookPage_category[OF assms]
  by (simp add: generateBreadcrumbJsonLd_def split: option.splits)

theorem breadcrumb_depth_witness:
  "getHandbookPage verbatim exampleDir ''react'' = Inr (Some reactPage) \<and>
   map li_name (generateBreadcrumbJsonLd reactPage ''react'') =
     [''Home'', ''Front-end Engineer Handbook'', ''Frameworks & Libraries'', ''React''] \<and>
   map li_position (generateBreadcrumbJsonLd reactPage ''react'') = [1, 2, 3, 4] \<and>
   getHandbookPage verbatim exampleDir ''about'' = Inr (Some (aboutPage verbatim)) \<and>
   map li_name (generateBreadcrumbJsonLd (aboutPage verbatim) ''about'') =
     [''Home'', ''Front-end Engineer Handbook'', ''About''] \<and>
   map li_position (generateBreadcrumbJsonLd (aboutPage verbatim) ''about'') = [1, 2, 3]"
proof -
  have r: "getHandbookPage verbatim exampleDir ''react'' = Inr (Some reactPage)" by code_simp
  have a: "getHandbookPage verbatim exampleDir ''about'' = Inr (Some (aboutPage verbatim))"
    by code_simp
  have cr: "page_category reactPage = Some ''Frameworks & Libraries''" 
    and tr: "page_title reactPage = ''React''" by (simp_all add: reactPage_def)
  have ca: "page_category (aboutPage verbatim) = None"
    and ta: "page_title (aboutPage verbatim) = ''About''" by (simp_all add: aboutPage_def)
  from breadcrumb_depth[OF r] breadcrumb_depth[OF a] r a show ?thesis
    by (simp add: cr tr ca ta)
qed

end
